theory Spec2Isabelle
  imports Main
begin

section \<open>The CSS selector builder of 06-objects-tasks.js\<close>

subsection \<open>Errors\<close>

text \<open>
  The builder throws \<^verbatim>\<open>new Error(message)\<close> with one of two messages. An error value
  carries its message, so the two kinds are told apart exactly as a caller of the
  JavaScript would. \<open>TypeError\<close> is what the runtime raises when a method is called on
  a value that does not have it, \<open>SyntaxError\<close> what \<^verbatim>\<open>JSON.parse\<close> raises on a text
  it cannot read.
\<close>

datatype error = Error string | TypeError | SyntaxError

definition DuplicateError :: error where
  "DuplicateError =
     Error ''Element, id and pseudo-element should not occur more then one time inside the selector''"

definition OrderError :: error where
  "OrderError =
     Error ''Selector parts should be arranged in the following order: element, id, class, attribute, pseudo-class, pseudo-element''"

subsection \<open>The state of a CSSPath\<close>

text \<open>
  \<^verbatim>\<open>this.css\<close> is an object with at most the six keys below, each holding a string.
  A key that was never assigned reads as \<^verbatim>\<open>undefined\<close>, here \<open>None\<close>. Values passed
  to the builder are strings.
\<close>

datatype field = FElement | FId | FClass | FAttribute | FPseudoClass | FPseudoElement

type_synonym css = "field \<Rightarrow> string option"

text \<open>\<^verbatim>\<open>constructor() { this.css = {}; }\<close>\<close>

definition CSSPath_new :: css where
  "CSSPath_new = (\<lambda>f. None)"

text \<open>
  JavaScript truthiness of a slot: \<^verbatim>\<open>undefined\<close> and the empty string are falsy,
  every other string is truthy.
\<close>

definition truthy :: "string option \<Rightarrow> bool" where
  "truthy v = (case v of None \<Rightarrow> False | Some s \<Rightarrow> s \<noteq> [])"

text \<open>
  \<^verbatim>\<open>x += s\<close> on a slot: string concatenation; on \<^verbatim>\<open>undefined\<close> the left operand
  is converted to the text \<^verbatim>\<open>undefined\<close>.
\<close>

definition plus_assign :: "string option \<Rightarrow> string \<Rightarrow> string" where
  "plus_assign x s = (case x of None \<Rightarrow> ''undefined'' @ s | Some t \<Rightarrow> t @ s)"

subsection \<open>checkOrder\<close>

definition order :: "field list" where
  "order = [FElement, FId, FClass, FAttribute, FPseudoClass, FPseudoElement]"

text \<open>\<^verbatim>\<open>Array.prototype.indexOf\<close>: the first index of the element, or \<open>-1\<close>.\<close>

fun indexOf :: "'a list \<Rightarrow> 'a \<Rightarrow> int" where
  "indexOf [] x = - 1"
| "indexOf (y # ys) x =
     (if y = x then 0 else (let i = indexOf ys x in if i < 0 then - 1 else i + 1))"

text \<open>\<^verbatim>\<open>Array.prototype.slice(start)\<close>: a negative start counts from the end.\<close>

definition slice :: "'a list \<Rightarrow> int \<Rightarrow> 'a list" where
  "slice xs start =
     (if start < 0 then drop (nat (max 0 (int (length xs) + start))) xs
      else drop (nat start) xs)"

text \<open>
  \<^verbatim>\<open>
  checkOrder(field) {
    const order = ['element', 'id', 'class', 'attribute', 'pseudoClass', 'pseudoElement'];
    const prev = order.slice(order.indexOf(field) + 1).some((f) => this.css[f]);
    if (prev) { throw new Error('Selector parts should be arranged ...'); }
  }
  \<close>
\<close>

definition checkOrder :: "field \<Rightarrow> css \<Rightarrow> error + unit" where
  "checkOrder fld css =
     (let prev = list_ex (\<lambda>f. truthy (css f)) (slice order (indexOf order fld + 1))
      in if prev then Inl OrderError else Inr ())"

subsection \<open>The six mutating methods\<close>

text \<open>
  A method either returns \<^verbatim>\<open>this\<close> (\<open>Inr\<close> of the state it leaves) or throws
  (\<open>Inl\<close> of the error and the state the instance is left in: the caller may still
  hold the instance).
\<close>

type_synonym outcome = "(error \<times> css) + css"

definition element :: "string \<Rightarrow> css \<Rightarrow> outcome" where
  "element val css =
     (if truthy (css FElement) then Inl (DuplicateError, css)
      else (case checkOrder FElement css of
              Inl e \<Rightarrow> Inl (e, css)
            | Inr _ \<Rightarrow> Inr (css(FElement \<mapsto> val))))"

definition id_sel :: "string \<Rightarrow> css \<Rightarrow> outcome" where
  "id_sel val css =
     (if truthy (css FId) then Inl (DuplicateError, css)
      else (case checkOrder FId css of
              Inl e \<Rightarrow> Inl (e, css)
            | Inr _ \<Rightarrow> Inr (css(FId \<mapsto> ''#'' @ val))))"

definition pseudoElement :: "string \<Rightarrow> css \<Rightarrow> outcome" where
  "pseudoElement val css =
     (if truthy (css FPseudoElement) then Inl (DuplicateError, css)
      else (case checkOrder FPseudoElement css of
              Inl e \<Rightarrow> Inl (e, css)
            | Inr _ \<Rightarrow> Inr (css(FPseudoElement \<mapsto> ''::'' @ val))))"

definition class_sel :: "string \<Rightarrow> css \<Rightarrow> outcome" where
  "class_sel val css =
     (let css1 = (if \<not> truthy (css FClass) then css(FClass \<mapsto> '''') else css)
      in (case checkOrder FClass css1 of
            Inl e \<Rightarrow> Inl (e, css1)
          | Inr _ \<Rightarrow> Inr (css1(FClass \<mapsto> plus_assign (css1 FClass) (''.'' @ val)))))"

definition attr :: "string \<Rightarrow> css \<Rightarrow> outcome" where
  "attr val css =
     (let css1 = (if \<not> truthy (css FAttribute) then css(FAttribute \<mapsto> '''') else css)
      in (case checkOrder FAttribute css1 of
            Inl e \<Rightarrow> Inl (e, css1)
          | Inr _ \<Rightarrow>
              Inr (css1(FAttribute \<mapsto> plus_assign (css1 FAttribute) (''['' @ val @ '']'')))))"

definition pseudoClass :: "string \<Rightarrow> css \<Rightarrow> outcome" where
  "pseudoClass val css =
     (let css1 = (if \<not> truthy (css FPseudoClass) then css(FPseudoClass \<mapsto> '''') else css)
      in (case checkOrder FPseudoClass css1 of
            Inl e \<Rightarrow> Inl (e, css1)
          | Inr _ \<Rightarrow>
              Inr (css1(FPseudoClass \<mapsto> plus_assign (css1 FPseudoClass) ('':'' @ val)))))"

subsection \<open>stringify\<close>

text \<open>\<^verbatim>\<open>if (this.css.f) { result += this.css.f; }\<close>\<close>

definition add_part :: "string \<Rightarrow> string option \<Rightarrow> string" where
  "add_part result v =
     (if truthy v then result @ (case v of Some s \<Rightarrow> s | None \<Rightarrow> ''undefined'')
      else result)"

definition stringify :: "css \<Rightarrow> string" where
  "stringify css =
     (let result = '''';
          result = add_part result (css FElement);
          result = add_part result (css FId);
          result = add_part result (css FClass);
          result = add_part result (css FAttribute);
          result = add_part result (css FPseudoClass);
          result = add_part result (css FPseudoElement)
      in result)"

subsection \<open>Calls and chains\<close>

text \<open>
  A call names the method by the category it writes and gives the value.
  \<open>chain\<close> is a fluent chain \<^verbatim>\<open>x.m1(v1).m2(v2)...\<close>: the first throw ends it.
  \<open>attempts\<close> is a caller that holds the instance, catches every throw and goes on
  calling; it returns the final state and the calls that returned.
\<close>

type_synonym call = "field \<times> string"

fun invoke :: "call \<Rightarrow> css \<Rightarrow> outcome" where
  "invoke (FElement, v) css = element v css"
| "invoke (FId, v) css = id_sel v css"
| "invoke (FClass, v) css = class_sel v css"
| "invoke (FAttribute, v) css = attr v css"
| "invoke (FPseudoClass, v) css = pseudoClass v css"
| "invoke (FPseudoElement, v) css = pseudoElement v css"

fun chain :: "call list \<Rightarrow> css \<Rightarrow> error + css" where
  "chain [] css = Inr css"
| "chain (c # cs) css =
     (case invoke c css of Inl (e, _) \<Rightarrow> Inl e | Inr css' \<Rightarrow> chain cs css')"

fun attempts :: "call list \<Rightarrow> css \<Rightarrow> css \<times> call list" where
  "attempts [] css = (css, [])"
| "attempts (c # cs) css =
     (case invoke c css of
        Inl (e, css') \<Rightarrow> attempts cs css'
      | Inr css' \<Rightarrow> (case attempts cs css' of (s, done) \<Rightarrow> (s, c # done)))"

subsection \<open>CSSCombinedPath and the facade\<close>

text \<open>
  \<^verbatim>\<open>combine\<close> stores whatever it is given: JavaScript checks nothing at the call.
  The values it can be handed are a CSSPath, a CSSCombinedPath, or anything else
  (\<open>Other\<close>: a value with no \<^verbatim>\<open>stringify\<close> method). Calling \<^verbatim>\<open>stringify\<close> on
  the latter is a \<open>TypeError\<close>, and a throw inside the template literal of
  \<^verbatim>\<open>CSSCombinedPath.stringify\<close> leaves it: the first selector is converted first.
\<close>

datatype jsvalue =
    CSSPath css
  | CSSCombinedPath (firstSelector: jsvalue) (combinator: string) (secondSelector: jsvalue)
  | Other

fun stringify_value :: "jsvalue \<Rightarrow> error + string" where
  "stringify_value (CSSPath css) = Inr (stringify css)"
| "stringify_value (CSSCombinedPath s1 c s2) =
     (case stringify_value s1 of
        Inl e \<Rightarrow> Inl e
      | Inr x \<Rightarrow>
          (case stringify_value s2 of
             Inl e \<Rightarrow> Inl e
           | Inr y \<Rightarrow> Inr (x @ '' '' @ c @ '' '' @ y)))"
| "stringify_value Other = Inl TypeError"

text \<open>
  The facade \<^verbatim>\<open>cssSelectorBuilder\<close>: each entry point returns an object or throws.
\<close>

definition returned :: "outcome \<Rightarrow> error + jsvalue" where
  "returned r = (case r of Inl (e, _) \<Rightarrow> Inl e | Inr css \<Rightarrow> Inr (CSSPath css))"

definition cssSelectorBuilder_element :: "string \<Rightarrow> error + jsvalue" where
  "cssSelectorBuilder_element val = returned (element val CSSPath_new)"

definition cssSelectorBuilder_id :: "string \<Rightarrow> error + jsvalue" where
  "cssSelectorBuilder_id val = returned (id_sel val CSSPath_new)"

definition cssSelectorBuilder_class :: "string \<Rightarrow> error + jsvalue" where
  "cssSelectorBuilder_class val = returned (class_sel val CSSPath_new)"

definition cssSelectorBuilder_attr :: "string \<Rightarrow> error + jsvalue" where
  "cssSelectorBuilder_attr val = returned (attr val CSSPath_new)"

definition cssSelectorBuilder_pseudoClass :: "string \<Rightarrow> error + jsvalue" where
  "cssSelectorBuilder_pseudoClass val = returned (pseudoClass val CSSPath_new)"

definition cssSelectorBuilder_pseudoElement :: "string \<Rightarrow> error + jsvalue" where
  "cssSelectorBuilder_pseudoElement val = returned (pseudoElement val CSSPath_new)"

definition cssSelectorBuilder_combine :: "jsvalue \<Rightarrow> string \<Rightarrow> jsvalue \<Rightarrow> error + jsvalue" where
  "cssSelectorBuilder_combine selector1 c selector2 = Inr (CSSCombinedPath selector1 c selector2)"

text \<open>
  A value is selector-like when it is a CSSPath or a CSSCombinedPath of two
  selector-like values.
\<close>

fun selectorLike :: "jsvalue \<Rightarrow> bool" where
  "selectorLike (CSSPath css) = True"
| "selectorLike (CSSCombinedPath s1 c s2) = (selectorLike s1 \<and> selectorLike s2)"
| "selectorLike Other = False"

section \<open>Rectangle\<close>

text \<open>
  \<^verbatim>\<open>
  function Rectangle(width, height) {
    this.width = width;
    this.height = height;
    this.getArea = () => this.width * this.height;
  }
  \<close>
  The arrow function reads the fields of the object when it is called. The type of
  numbers is a parameter: any type with a multiplication.
\<close>

record 'a rectangle =
  width :: 'a
  height :: 'a

definition Rectangle :: "'a \<Rightarrow> 'a \<Rightarrow> 'a rectangle" where
  "Rectangle w h = \<lparr>width = w, height = h\<rparr>"

definition getArea :: "'a::times rectangle \<Rightarrow> 'a" where
  "getArea this = width this * height this"

section \<open>getJSON and fromJSON\<close>

text \<open>
  An object is its prototype (the members it inherits) and its own enumerable
  properties; reading a property looks at the own ones first.
\<close>

record 'v object =
  prototype :: "string \<rightharpoonup> 'v"
  own :: "string \<rightharpoonup> 'v"

definition get_property :: "'v object \<Rightarrow> string \<Rightarrow> 'v option" where
  "get_property obj k = (case own obj k of Some x \<Rightarrow> Some x | None \<Rightarrow> prototype obj k)"

text \<open>
  Modelled from the spec: the runtime's \<^verbatim>\<open>Object.create\<close> and \<^verbatim>\<open>Object.assign\<close>, which
  are not part of the repository. The spec: a new value that exposes all capabilities
  of the blueprint, plus all parsed fields copied onto it (shallow merge). The members
  of a blueprint are plain data members: a copied field becomes an own property.
\<close>

definition Object_create :: "(string \<rightharpoonup> 'v) \<Rightarrow> 'v object" where
  "Object_create proto = \<lparr>prototype = proto, own = Map.empty\<rparr>"

definition Object_assign :: "'v object \<Rightarrow> (string \<rightharpoonup> 'v) \<Rightarrow> 'v object" where
  "Object_assign target source = target\<lparr>own := own target ++ source\<rparr>"

text \<open>
  \<^verbatim>\<open>JSON.stringify\<close> and \<^verbatim>\<open>JSON.parse\<close> are the runtime's too: they are parameters.
  A value is given by its own enumerable properties; \<open>JSON_parse\<close> returns those of
  the value it read, or throws.
  \<^verbatim>\<open>
  function getJSON(obj) { return JSON.stringify(obj); }
  function fromJSON(proto, json) {
    return Object.assign(Object.create(proto), JSON.parse(json));
  }
  \<close>
\<close>

definition getJSON :: "('a \<Rightarrow> string) \<Rightarrow> 'a \<Rightarrow> string" where
  "getJSON JSON_stringify obj = JSON_stringify obj"

definition fromJSON ::
  "(string \<Rightarrow> error + (string \<rightharpoonup> 'v)) \<Rightarrow> (string \<rightharpoonup> 'v) \<Rightarrow> string \<Rightarrow> error + 'v object" where
  "fromJSON JSON_parse proto json =
     (case JSON_parse json of
        Inl e \<Rightarrow> Inl e
      | Inr parsed \<Rightarrow> Inr (Object_assign (Object_create proto) parsed))"

section \<open>The specification's words\<close>

text \<open>
  The fragment the specification gives for one call, and the string it gives for a
  sequence of calls: category by category in the fixed order, within a category the
  fragments of its calls in call order.
\<close>

fun spec_fragment :: "call \<Rightarrow> string" where
  "spec_fragment (FElement, v) = v"
| "spec_fragment (FId, v) = ''#'' @ v"
| "spec_fragment (FClass, v) = ''.'' @ v"
| "spec_fragment (FAttribute, v) = ''['' @ v @ '']''"
| "spec_fragment (FPseudoClass, v) = '':'' @ v"
| "spec_fragment (FPseudoElement, v) = ''::'' @ v"

definition spec_category :: "field \<Rightarrow> call list \<Rightarrow> string" where
  "spec_category f cs = concat (map spec_fragment (filter (\<lambda>c. fst c = f) cs))"

definition spec_stringify :: "call list \<Rightarrow> string" where
  "spec_stringify cs = concat (map (\<lambda>f. spec_category f cs) order)"

text \<open>The position of a call's category in the precedence list.\<close>

definition rank :: "call \<Rightarrow> int" where
  "rank c = indexOf order (fst c)"

text \<open>Element, id and pseudo-element are the categories that may occur once.\<close>

definition single :: "field \<Rightarrow> bool" where
  "single f = (f = FElement \<or> f = FId \<or> f = FPseudoElement)"

definition at_most_once :: "call list \<Rightarrow> bool" where
  "at_most_once cs = (\<forall>f. single f \<longrightarrow> length (filter (\<lambda>c. fst c = f) cs) \<le> 1)"

text \<open>Some category strictly after \<open>f\<close> in the precedence list holds a non-empty string.\<close>

definition later_set :: "field \<Rightarrow> css \<Rightarrow> bool" where
  "later_set f css = (\<exists>g. indexOf order f < indexOf order g \<and> truthy (css g))"

text \<open>The text a slot holds, empty when it was never assigned.\<close>

definition content :: "css \<Rightarrow> field \<Rightarrow> string" where
  "content css f = (case css f of None \<Rightarrow> [] | Some s \<Rightarrow> s)"

section \<open>Properties of the model\<close>

lemma DuplicateError_neq_OrderError: "DuplicateError \<noteq> OrderError"
  by (simp add: DuplicateError_def OrderError_def)

lemma indexOf_order:
  "indexOf order FElement = 0" "indexOf order FId = 1" "indexOf order FClass = 2"
  "indexOf order FAttribute = 3" "indexOf order FPseudoClass = 4"
  "indexOf order FPseudoElement = 5"
  by (simp_all add: order_def)

lemma later_fields:
  "slice order (indexOf order FElement + 1) = [FId, FClass, FAttribute, FPseudoClass, FPseudoElement]"
  "slice order (indexOf order FId + 1) = [FClass, FAttribute, FPseudoClass, FPseudoElement]"
  "slice order (indexOf order FClass + 1) = [FAttribute, FPseudoClass, FPseudoElement]"
  "slice order (indexOf order FAttribute + 1) = [FPseudoClass, FPseudoElement]"
  "slice order (indexOf order FPseudoClass + 1) = [FPseudoElement]"
  "slice order (indexOf order FPseudoElement + 1) = []"
  by (simp_all add: indexOf_order slice_def) (simp_all add: order_def)

lemma ex_field:
  "(\<exists>g. P g) \<longleftrightarrow>
     P FElement \<or> P FId \<or> P FClass \<or> P FAttribute \<or> P FPseudoClass \<or> P FPseudoElement"
  by (metis field.exhaust)

lemma truthy_simps [simp]: "truthy None = False" "truthy (Some s) = (s \<noteq> [])"
  by (simp_all add: truthy_def)

lemma checkOrder_eq:
  "checkOrder f css = (if later_set f css then Inl OrderError else Inr ())"
proof -
  have "list_ex (\<lambda>g. truthy (css g)) (slice order (indexOf order f + 1)) = later_set f css"
    unfolding later_set_def
    by (cases f) (simp_all only: later_fields, auto simp: ex_field indexOf_order)
  then show ?thesis
    by (simp add: checkOrder_def)
qed

lemma later_set_upd_self: "later_set f (css(f := x)) = later_set f css"
  by (auto simp: later_set_def)

text \<open>What a call does, in one equation.\<close>

lemma invoke_eq:
  "invoke (f, v) css =
     (if single f \<and> truthy (css f) then Inl (DuplicateError, css)
      else if later_set f css
        then Inl (OrderError, if \<not> single f \<and> \<not> truthy (css f) then css(f \<mapsto> '''') else css)
      else Inr (css(f \<mapsto> content css f @ spec_fragment (f, v))))"
  by (cases f)
     (auto simp: element_def id_sel_def pseudoElement_def class_sel_def attr_def pseudoClass_def
        checkOrder_eq later_set_upd_self single_def Let_def plus_assign_def content_def
        split: option.splits)

subsection \<open>Slots and fragments\<close>

lemma truthy_content: "truthy (css f) \<longleftrightarrow> content css f \<noteq> []"
  by (simp add: content_def split: option.splits)

lemma add_part_content: "add_part r (css f) = r @ content css f"
  by (simp add: add_part_def content_def split: option.splits)

lemma stringify_content: "stringify css = concat (map (content css) order)"
  by (simp add: stringify_def Let_def add_part_content order_def)

lemma content_new [simp]: "content CSSPath_new f = []"
  by (simp add: content_def CSSPath_new_def)

lemma spec_fragment_nonempty: "f \<noteq> FElement \<Longrightarrow> spec_fragment (f, v) \<noteq> []"
  by (cases f) simp_all

lemma indexOf_order_nonneg: "0 \<le> indexOf order f"
  by (cases f) (simp_all add: indexOf_order)

text \<open>A call that returns.\<close>

lemma invoke_Inr:
  assumes "invoke (f, v) css = Inr css'"
  shows "css' = css(f \<mapsto> content css f @ spec_fragment (f, v))"
    and "\<not> later_set f css" and "\<not> (single f \<and> truthy (css f))"
  using assms by (auto simp: invoke_eq split: if_splits)

lemma invoke_Inr_content:
  assumes "invoke (f, v) css = Inr css'"
  shows "content css' g = (if g = f then content css f @ spec_fragment (f, v) else content css g)"
  using invoke_Inr(1) [OF assms] by (simp add: content_def)

text \<open>A call that throws.\<close>

lemma invoke_Inl:
  assumes "invoke (f, v) css = Inl (e, css')"
  shows "content css' g = content css g"
    and "e = DuplicateError \<and> single f \<and> truthy (css f) \<or>
         e = OrderError \<and> \<not> (single f \<and> truthy (css f)) \<and> later_set f css"
  using assms by (auto simp: invoke_eq content_def split: if_splits option.splits)

lemma chain_content:
  "chain cs css = Inr css' \<Longrightarrow> content css' f = content css f @ spec_category f cs"
proof (induction cs arbitrary: css)
  case Nil
  then show ?case by (simp add: spec_category_def)
next
  case (Cons c cs)
  obtain g v where c: "c = (g, v)" by (cases c)
  from Cons.prems obtain s where s: "invoke (g, v) css = Inr s" and rest: "chain cs s = Inr css'"
    by (auto simp: c split: sum.splits prod.splits)
  have "content css' f = content s f @ spec_category f cs"
    by (rule Cons.IH [OF rest])
  then show ?case
    by (simp add: invoke_Inr_content [OF s] spec_category_def c)
qed

lemma chain_stringify:
  assumes "chain cs CSSPath_new = Inr css"
  shows "stringify css = spec_stringify cs"
proof -
  have "content css = (\<lambda>f. spec_category f cs)"
    using chain_content [OF assms] by (intro ext) simp
  then show ?thesis
    by (simp add: stringify_content spec_stringify_def)
qed

subsection \<open>Ordered chains\<close>

text \<open>Failure of an ordered chain.\<close>

lemma chain_sorted_Inl:
  assumes "sorted (map rank cs)"
    and "\<And>g c. truthy (css g) \<Longrightarrow> c \<in> set cs \<Longrightarrow> indexOf order g \<le> rank c"
    and "chain cs css = Inl e"
  shows "e = DuplicateError \<and>
         (\<exists>f. single f \<and> (truthy (css f) \<and> f \<in> fst ` set cs \<or>
                          2 \<le> length (filter (\<lambda>c. fst c = f) cs)))"
  using assms
proof (induction cs arbitrary: css)
  case Nil
  then show ?case by simp
next
  case (Cons c cs)
  obtain f v where c: "c = (f, v)" by (cases c)
  have nolater: "\<not> later_set f css"
    using Cons.prems(2) [of _ c] by (fastforce simp: later_set_def c rank_def)
  show ?case
  proof (cases "invoke (f, v) css")
    case (Inl p)
    obtain e' s where p: "p = (e', s)" by (cases p)
    from Inl Cons.prems(3) have "e' = e" by (simp add: c p)
    with invoke_Inl(2) [OF Inl [unfolded p]] nolater
    have "e = DuplicateError" "single f" "truthy (css f)" by auto
    then show ?thesis by (auto simp: c intro!: exI [of _ f])
  next
    case (Inr s)
    from Inr Cons.prems(3) have rest: "chain cs s = Inl e" by (simp add: c)
    have srt: "sorted (map rank cs)" and le: "\<And>d. d \<in> set cs \<Longrightarrow> rank c \<le> rank d"
      using Cons.prems(1) by auto
    have pre: "indexOf order g \<le> rank d" if "truthy (s g)" "d \<in> set cs" for g d
    proof (cases "g = f")
      case True
      then show ?thesis using le [OF that(2)] by (simp add: rank_def c)
    next
      case False
      then have "truthy (css g)"
        using that(1) invoke_Inr(1) [OF Inr] by simp
      then show ?thesis using Cons.prems(2) that(2) by simp
    qed
    from Cons.IH [OF srt pre rest]
    obtain h where e: "e = DuplicateError" and h: "single h"
      and alt: "truthy (s h) \<and> h \<in> fst ` set cs \<or> 2 \<le> length (filter (\<lambda>c. fst c = h) cs)"
      by blast
    from alt show ?thesis
    proof
      assume a: "truthy (s h) \<and> h \<in> fst ` set cs"
      show ?thesis
      proof (cases "h = f")
        case True
        from a obtain d where "d \<in> set cs" "fst d = h" by auto
        then have "d \<in> set (filter (\<lambda>c. fst c = h) cs)" by simp
        then have "1 \<le> length (filter (\<lambda>c. fst c = h) cs)"
          by (metis One_nat_def Suc_leI length_pos_if_in_set)
        then have "2 \<le> length (filter (\<lambda>c. fst c = h) (c # cs))"
          using True by (simp add: c)
        with e h show ?thesis by blast
      next
        case False
        then have "truthy (css h)"
          using a invoke_Inr(1) [OF Inr] by simp
        with e h a show ?thesis by auto
      qed
    next
      assume "2 \<le> length (filter (\<lambda>c. fst c = h) cs)"
      then have "2 \<le> length (filter (\<lambda>c. fst c = h) (c # cs))" by simp
      with e h show ?thesis by blast
    qed
  qed
qed

lemma not_truthy_new [simp]: "\<not> truthy (CSSPath_new g)"
  by (simp add: CSSPath_new_def)

lemma chain_sorted_new_Inl:
  assumes "sorted (map rank cs)" and "chain cs CSSPath_new = Inl e"
  shows "e = DuplicateError \<and> \<not> at_most_once cs"
proof -
  from chain_sorted_Inl [OF assms(1) _ assms(2)]
  obtain f where "e = DuplicateError" "single f" "2 \<le> length (filter (\<lambda>c. fst c = f) cs)"
    by auto
  then show ?thesis by (fastforce simp: at_most_once_def)
qed

text \<open>
  C1. On a fresh instance, a chain of calls in non-decreasing precedence order returns
  unless element, id or pseudo-element is called twice (the only error it can then meet
  is the duplicate error), and when it returns, stringify gives exactly the fragments
  of the calls, category by category in the fixed order and in call order within a
  category, with nothing between them.
\<close>

theorem stringify_ordered_chain:
  assumes "sorted (map rank cs)"
  shows "case chain cs CSSPath_new of
           Inr css \<Rightarrow> stringify css = spec_stringify cs
         | Inl e \<Rightarrow> e = DuplicateError \<and> \<not> at_most_once cs"
  using chain_stringify chain_sorted_new_Inl [OF assms]
  by (auto split: sum.splits)

theorem stringify_ordered_chain_witness:
  "sorted (map rank [(FId, ''main''), (FClass, ''container''), (FClass, ''editable'')]) \<and>
   at_most_once [(FId, ''main''), (FClass, ''container''), (FClass, ''editable'')] \<and>
   (\<exists>css. chain [(FId, ''main''), (FClass, ''container''), (FClass, ''editable'')] CSSPath_new = Inr css \<and>
      stringify css = ''#main.container.editable'')"
proof -
  let ?cs = "[(FId, ''main''), (FClass, ''container''), (FClass, ''editable'')]"
  have s: "sorted (map rank ?cs)"
    by (simp add: rank_def indexOf_order)
  have a: "at_most_once ?cs"
    by (simp add: at_most_once_def single_def)
  have v: "spec_stringify ?cs = ''#main.container.editable''"
    by (simp add: spec_stringify_def spec_category_def order_def)
  from stringify_ordered_chain [OF s] a v
  have "\<exists>css. chain ?cs CSSPath_new = Inr css \<and> stringify css = ''#main.container.editable''"
    by (cases "chain ?cs CSSPath_new") auto
  with s a show ?thesis by blast
qed

subsection \<open>The order of the calls that return\<close>

lemma attempts_sorted_aux:
  "sorted (map rank (snd (attempts cs css))) \<and>
   (\<forall>g. truthy (css g) \<longrightarrow> (\<forall>c \<in> set (snd (attempts cs css)). indexOf order g \<le> rank c))"
proof (induction cs arbitrary: css)
  case Nil
  then show ?case by simp
next
  case (Cons c cs)
  obtain f v where c: "c = (f, v)" by (cases c)
  show ?case
  proof (cases "invoke (f, v) css")
    case (Inl p)
    obtain e s where p: "p = (e, s)" by (cases p)
    have same: "truthy (s g) = truthy (css g)" for g
      using invoke_Inl(1) [OF Inl [unfolded p], of g] by (simp add: truthy_content)
    have "attempts (c # cs) css = attempts cs s"
      by (simp add: c Inl p)
    then show ?thesis using Cons.IH [of s] by (simp add: same)
  next
    case (Inr s)
    have att: "snd (attempts (c # cs) css) = c # snd (attempts cs s)"
      by (simp add: c Inr split: prod.splits)
    have s: "s = css(f \<mapsto> content css f @ spec_fragment (f, v))" and nl: "\<not> later_set f css"
      using invoke_Inr [OF Inr] by simp_all
    have keep: "truthy (s g)" if "truthy (css g)" for g
      using that by (auto simp: s truthy_content)
    have own: "truthy (s f)" if "f \<noteq> FElement"
      using spec_fragment_nonempty [OF that] by (simp add: s)
    have before: "indexOf order g \<le> rank c" if "truthy (css g)" for g
    proof (rule ccontr)
      assume "\<not> indexOf order g \<le> rank c"
      then have "indexOf order f < indexOf order g" by (simp add: rank_def c)
      with that have "later_set f css" unfolding later_set_def by blast
      with nl show False by contradiction
    qed
    have first: "rank c \<le> rank d" if "d \<in> set (snd (attempts cs s))" for d
    proof (cases "f = FElement")
      case True
      then show ?thesis using indexOf_order_nonneg [of "fst d"] by (simp add: rank_def c indexOf_order)
    next
      case False
      from own [OF False] Cons.IH [of s] that show ?thesis by (simp add: rank_def c)
    qed
    show ?thesis
      unfolding att using Cons.IH [of s] first before keep by auto
  qed
qed

text \<open>
  C4 (invariant I2). Whatever calls are made on a fresh instance, failed ones included,
  the calls that return are in non-decreasing precedence order: after a category has
  been written, no call for a strictly earlier category returns.
\<close>

theorem successful_calls_in_precedence_order:
  "sorted (map rank (snd (attempts cs CSSPath_new)))"
  using attempts_sorted_aux [of cs CSSPath_new] by simp

subsection \<open>A call that throws\<close>

text \<open>
  C9. A call that throws leaves stringify as it was, also when class, attr or
  pseudoClass has already put the empty string into its slot.
\<close>

theorem failed_call_keeps_stringify:
  assumes "invoke (f, v) css = Inl (e, css')"
  shows "stringify css' = stringify css"
proof -
  have "content css' = content css"
    using invoke_Inl(1) [OF assms] by (intro ext)
  then show ?thesis by (simp add: stringify_content)
qed

theorem failed_call_keeps_stringify_witness:
  "invoke (FClass, ''y'') (CSSPath_new(FPseudoElement \<mapsto> ''::x'')) =
     Inl (OrderError, CSSPath_new(FPseudoElement \<mapsto> ''::x'', FClass \<mapsto> '''')) \<and>
   stringify (CSSPath_new(FPseudoElement \<mapsto> ''::x'', FClass \<mapsto> '''')) =
     stringify (CSSPath_new(FPseudoElement \<mapsto> ''::x''))"
proof -
  have h: "invoke (FClass, ''y'') (CSSPath_new(FPseudoElement \<mapsto> ''::x'')) =
     Inl (OrderError, CSSPath_new(FPseudoElement \<mapsto> ''::x'', FClass \<mapsto> ''''))"
    by (simp add: class_sel_def checkOrder_def slice_def order_def CSSPath_new_def)
  from h failed_call_keeps_stringify [OF h] show ?thesis by simp
qed

subsection \<open>When the order error is raised\<close>

text \<open>
  C2 as stated fails. After \<^verbatim>\<open>element('a').id('x')\<close> the id slot, which is after element in the precedence
  list, holds a value; yet a further \<^verbatim>\<open>element('b')\<close> throws the duplicate error, not
  the order error: the duplicate check of element, id and pseudoElement runs before
  checkOrder.
\<close>

theorem order_error_counterexample:
  "chain [(FElement, ''a''), (FId, ''x'')] CSSPath_new =
     Inr (CSSPath_new(FElement \<mapsto> ''a'', FId \<mapsto> ''#x'')) \<and>
   indexOf order FElement < indexOf order FId \<and>
   truthy ((CSSPath_new(FElement \<mapsto> ''a'', FId \<mapsto> ''#x'')) FId) \<and>
   invoke (FElement, ''b'') (CSSPath_new(FElement \<mapsto> ''a'', FId \<mapsto> ''#x'')) =
     Inl (DuplicateError, CSSPath_new(FElement \<mapsto> ''a'', FId \<mapsto> ''#x'')) \<and>
   DuplicateError \<noteq> OrderError"
  by (simp add: element_def id_sel_def checkOrder_def slice_def order_def CSSPath_new_def
      DuplicateError_neq_OrderError)

lemma invoke_OrderError_iff:
  "(\<exists>css'. invoke (f, v) css = Inl (OrderError, css')) \<longleftrightarrow>
     \<not> (single f \<and> truthy (css f)) \<and> later_set f css"
  using DuplicateError_neq_OrderError by (auto simp: invoke_eq)

lemma invoke_after_later:
  assumes "invoke (f, v) css = Inr css1" and "indexOf order g < indexOf order f"
  shows "\<exists>css2. invoke (g, w) css1 =
           Inl (if single g \<and> truthy (css1 g) then DuplicateError else OrderError, css2)"
proof -
  have "f \<noteq> FElement"
    using assms(2) indexOf_order_nonneg [of g] by (auto simp: indexOf_order)
  then have "truthy (css1 f)"
    using invoke_Inr(1) [OF assms(1)] spec_fragment_nonempty [of f v] by simp
  with assms(2) have "later_set g css1"
    unfolding later_set_def by blast
  then show ?thesis by (simp add: invoke_eq)
qed

lemma pair_in_order:
  assumes "indexOf order f \<le> indexOf order g"
  shows "chain [(f, v), (g, w)] CSSPath_new \<noteq> Inl OrderError"
proof -
  have "sorted (map rank [(f, v), (g, w)])"
    using assms by (simp add: rank_def)
  from chain_sorted_new_Inl [OF this] DuplicateError_neq_OrderError
  show ?thesis by auto
qed

text \<open>
  C2, as the code has it. A call for category \<open>f\<close> throws the order error exactly when
  its duplicate check does not fire (\<open>f\<close> is class, attribute or pseudo-class, or the
  slot of \<open>f\<close> is empty) and some category strictly after \<open>f\<close> in the precedence list
  holds a non-empty string. When the duplicate check fires (\<open>f\<close> is element, id or
  pseudo-element and its slot holds a non-empty string) the call throws the duplicate
  error and leaves the state as it was, whatever the later categories hold. In
  particular class after a returned pseudoElement throws
  the order error, so does any call for a strictly earlier category after a returned
  call unless its duplicate check fires, and two calls in non-decreasing precedence
  order on a fresh instance never throw the order error.
\<close>

theorem order_error_iff:
  "((\<exists>t. invoke (f, v) css = Inl (OrderError, t)) \<longleftrightarrow>
      \<not> (single f \<and> truthy (css f)) \<and>
      (\<exists>g. indexOf order f < indexOf order g \<and> truthy (css g))) \<and>
   (single f \<and> truthy (css f) \<longrightarrow> invoke (f, v) css = Inl (DuplicateError, css)) \<and>
   (pseudoElement v css = Inr css' \<longrightarrow> (\<exists>t. class_sel w css' = Inl (OrderError, t))) \<and>
   (invoke (f, v) css = Inr css' \<and> indexOf order g < indexOf order f \<and>
      \<not> (single g \<and> truthy (css' g)) \<longrightarrow>
      (\<exists>t. invoke (g, w) css' = Inl (OrderError, t))) \<and>
   (indexOf order f \<le> indexOf order g \<longrightarrow>
      chain [(f, v), (g, w)] CSSPath_new \<noteq> Inl OrderError)"
proof (intro conjI impI)
  show "(\<exists>t. invoke (f, v) css = Inl (OrderError, t)) \<longleftrightarrow>
      \<not> (single f \<and> truthy (css f)) \<and>
      (\<exists>g. indexOf order f < indexOf order g \<and> truthy (css g))"
    using invoke_OrderError_iff [of f v css] by (simp add: later_set_def)
next
  assume "single f \<and> truthy (css f)"
  then show "invoke (f, v) css = Inl (DuplicateError, css)"
    by (simp add: invoke_eq)
next
  assume "pseudoElement v css = Inr css'"
  then have "invoke (FPseudoElement, v) css = Inr css'" by simp
  from invoke_after_later [OF this, of FClass w]
  show "\<exists>t. class_sel w css' = Inl (OrderError, t)"
    by (simp add: indexOf_order single_def)
next
  assume "invoke (f, v) css = Inr css' \<and> indexOf order g < indexOf order f \<and>
      \<not> (single g \<and> truthy (css' g))"
  then show "\<exists>t. invoke (g, w) css' = Inl (OrderError, t)"
    using invoke_after_later [of f v css css' g w] by auto
next
  assume "indexOf order f \<le> indexOf order g"
  then show "chain [(f, v), (g, w)] CSSPath_new \<noteq> Inl OrderError"
    by (rule pair_in_order)
qed

theorem order_error_iff_witness:
  "(\<exists>css'. invoke (FClass, ''y'') (CSSPath_new(FPseudoElement \<mapsto> ''::x'')) = Inl (OrderError, css')) \<and>
   single FElement \<and>
   truthy ((CSSPath_new(FElement \<mapsto> ''a'', FId \<mapsto> ''#x'')) FElement) \<and>
   invoke (FElement, ''b'') (CSSPath_new(FElement \<mapsto> ''a'', FId \<mapsto> ''#x'')) =
     Inl (DuplicateError, CSSPath_new(FElement \<mapsto> ''a'', FId \<mapsto> ''#x'')) \<and>
   pseudoElement ''x'' CSSPath_new = Inr (CSSPath_new(FPseudoElement \<mapsto> ''::x'')) \<and>
   (\<exists>css2. class_sel ''y'' (CSSPath_new(FPseudoElement \<mapsto> ''::x'')) = Inl (OrderError, css2)) \<and>
   indexOf order FClass \<le> indexOf order FPseudoElement \<and>
   chain [(FClass, ''y''), (FPseudoElement, ''x'')] CSSPath_new \<noteq> Inl OrderError"
proof -
  let ?s = "CSSPath_new(FPseudoElement \<mapsto> ''::x'')"
  let ?d = "CSSPath_new(FElement \<mapsto> ''a'', FId \<mapsto> ''#x'')"
  have p: "pseudoElement ''x'' CSSPath_new = Inr ?s"
    by (simp add: pseudoElement_def checkOrder_def slice_def order_def CSSPath_new_def)
  have i: "indexOf order FClass < indexOf order FPseudoElement \<and> truthy (?s FPseudoElement)"
    by (simp add: order_def)
  then have r: "\<not> (single FClass \<and> truthy (?s FClass)) \<and>
      (\<exists>g. indexOf order FClass < indexOf order g \<and> truthy (?s g))"
    unfolding single_def by blast
  have le: "indexOf order FClass \<le> indexOf order FPseudoElement"
    by (simp add: order_def)
  have d: "single FElement \<and> truthy (?d FElement)"
    by (simp add: single_def)
  note t = order_error_iff [where f = FClass and v = "''y''" and css = ?s and g = FPseudoElement]
  from t r have 1: "\<exists>css'. invoke (FClass, ''y'') ?s = Inl (OrderError, css')" by blast
  note u = order_error_iff [where f = FClass and v = "''x''" and css = CSSPath_new
      and css' = ?s and w = "''y''" and g = FPseudoElement]
  from u p have 2: "\<exists>css2. class_sel ''y'' ?s = Inl (OrderError, css2)" by blast
  note u' = order_error_iff [where f = FClass and v = "''y''" and g = FPseudoElement and w = "''x''"]
  from u' le have 3: "chain [(FClass, ''y''), (FPseudoElement, ''x'')] CSSPath_new \<noteq> Inl OrderError"
    by blast
  note u'' = order_error_iff [where f = FElement and v = "''b''" and css = ?d]
  from u'' d have 4: "invoke (FElement, ''b'') ?d = Inl (DuplicateError, ?d)" by blast
  from 1 d 4 p 2 le 3 show ?thesis by blast
qed

subsection \<open>Calling element, id or pseudoElement twice\<close>

text \<open>
  A second call of id or pseudoElement always throws the duplicate error, and so does
  a second call of element when the first value was not empty.
\<close>

lemma second_call_duplicate:
  assumes "invoke (f, v) css = Inr css'" and "single f" and "f \<noteq> FElement \<or> v \<noteq> []"
  shows "invoke (f, w) css' = Inl (DuplicateError, css')"
proof -
  have "spec_fragment (f, v) \<noteq> []"
    using assms(3) spec_fragment_nonempty [of f v] by (cases "f = FElement") auto
  then have "truthy (css' f)"
    using invoke_Inr(1) [OF assms(1)] by simp
  with assms(2) show ?thesis by (simp add: invoke_eq)
qed

text \<open>
  C3. The code at \<^verbatim>\<open>cssSelectorBuilder.element('').element('div')\<close>: the empty string is
  falsy, the duplicate check of element does not see it, and the second call returns.
\<close>

theorem element_twice_returns:
  "cssSelectorBuilder_element '''' = Inr (CSSPath (CSSPath_new(FElement \<mapsto> ''''))) \<and>
   element ''div'' (CSSPath_new(FElement \<mapsto> '''')) = Inr (CSSPath_new(FElement \<mapsto> ''div'')) \<and>
   chain [(FElement, ''''), (FElement, ''div'')] CSSPath_new = Inr (CSSPath_new(FElement \<mapsto> ''div''))"
  by (simp add: cssSelectorBuilder_element_def returned_def element_def checkOrder_def slice_def
      order_def CSSPath_new_def)

text \<open>
  C10. \<^verbatim>\<open>element('')\<close> returns a selector whose stringify is the empty string, and a
  second element call on it returns and overwrites the value. A returned call of any
  other category leaves a non-empty string in its slot, so a second id or
  pseudoElement call throws the duplicate error whatever the values.
\<close>

theorem empty_element_edge_case:
  "(\<exists>css. cssSelectorBuilder_element '''' = Inr (CSSPath css) \<and> stringify css = '''' \<and>
      (\<exists>css'. element v css = Inr css' \<and> css' FElement = Some v \<and> stringify css' = v)) \<and>
   (f \<noteq> FElement \<and> invoke (f, w) s = Inr s' \<longrightarrow> truthy (s' f)) \<and>
   (f \<noteq> FElement \<and> single f \<and> invoke (f, w) s = Inr s' \<longrightarrow>
      invoke (f, w') s' = Inl (DuplicateError, s'))"
proof (intro conjI impI)
  let ?css = "CSSPath_new(FElement \<mapsto> '''')"
  have 1: "cssSelectorBuilder_element '''' = Inr (CSSPath ?css)"
    by (simp add: cssSelectorBuilder_element_def returned_def element_def checkOrder_eq
        later_set_def)
  have 2: "stringify ?css = ''''"
    by (simp add: stringify_content order_def content_def CSSPath_new_def)
  have 3: "element v ?css = Inr (?css(FElement \<mapsto> v))"
    by (simp add: element_def checkOrder_eq later_set_def CSSPath_new_def)
  have 4: "stringify (?css(FElement \<mapsto> v)) = v"
    by (simp add: stringify_content order_def content_def CSSPath_new_def)
  from 1 2 3 4
  show "\<exists>css. cssSelectorBuilder_element '''' = Inr (CSSPath css) \<and> stringify css = '''' \<and>
      (\<exists>css'. element v css = Inr css' \<and> css' FElement = Some v \<and> stringify css' = v)"
    by simp
next
  assume a: "f \<noteq> FElement \<and> invoke (f, w) s = Inr s'"
  then show "truthy (s' f)"
    using invoke_Inr(1) [of f w s s'] spec_fragment_nonempty [of f w] by simp
next
  assume "f \<noteq> FElement \<and> single f \<and> invoke (f, w) s = Inr s'"
  then show "invoke (f, w') s' = Inl (DuplicateError, s')"
    using second_call_duplicate [of f w s s' w'] by simp
qed

theorem empty_element_edge_case_witness:
  "FId \<noteq> FElement \<and> single FId \<and>
   invoke (FId, ''main'') CSSPath_new = Inr (CSSPath_new(FId \<mapsto> ''#main'')) \<and>
   truthy ((CSSPath_new(FId \<mapsto> ''#main'')) FId) \<and>
   invoke (FId, '''') (CSSPath_new(FId \<mapsto> ''#main'')) =
     Inl (DuplicateError, CSSPath_new(FId \<mapsto> ''#main'')) \<and>
   (\<exists>css. cssSelectorBuilder_element '''' = Inr (CSSPath css) \<and> stringify css = '''' \<and>
      (\<exists>css'. element ''div'' css = Inr css' \<and> css' FElement = Some ''div'' \<and>
         stringify css' = ''div''))"
proof -
  let ?s = "CSSPath_new(FId \<mapsto> ''#main'')"
  have i: "invoke (FId, ''main'') CSSPath_new = Inr ?s"
    by (simp add: id_sel_def checkOrder_def slice_def order_def CSSPath_new_def)
  have h: "FId \<noteq> FElement \<and> single FId"
    by (simp add: single_def)
  note t = empty_element_edge_case [where f = FId and w = "''main''" and s = CSSPath_new
      and s' = ?s and w' = "''''" and v = "''div''"]
  from t h i show ?thesis by blast
qed

subsection \<open>Combined selectors\<close>

lemma selectorLike_stringify:
  "selectorLike sel \<Longrightarrow> \<exists>x. stringify_value sel = Inr x"
  by (induction sel) auto

text \<open>
  C5. For selector-like \<open>l\<close> and \<open>r\<close> and any combinator string, both stringify calls
  return and stringify of the combined selector is the left string, a space, the
  combinator as given, a space, the right string. A combined selector is selector-like
  itself, so this is also the rule for nested combinations.
\<close>

theorem combined_stringify:
  assumes "selectorLike l" and "selectorLike r"
  shows "\<exists>x y. stringify_value l = Inr x \<and> stringify_value r = Inr y \<and>
           (\<exists>sel. cssSelectorBuilder_combine l c r = Inr sel \<and>
              stringify_value sel = Inr (x @ '' '' @ c @ '' '' @ y))"
proof -
  from selectorLike_stringify [OF assms(1)] obtain x where x: "stringify_value l = Inr x" ..
  from selectorLike_stringify [OF assms(2)] obtain y where y: "stringify_value r = Inr y" ..
  from x y show ?thesis
    by (simp add: cssSelectorBuilder_combine_def)
qed

theorem combined_stringify_witness:
  "chain [(FElement, ''div''), (FId, ''main'')] CSSPath_new =
     Inr (CSSPath_new(FElement \<mapsto> ''div'', FId \<mapsto> ''#main'')) \<and>
   chain [(FElement, ''table''), (FId, ''data'')] CSSPath_new =
     Inr (CSSPath_new(FElement \<mapsto> ''table'', FId \<mapsto> ''#data'')) \<and>
   selectorLike (CSSPath (CSSPath_new(FElement \<mapsto> ''div'', FId \<mapsto> ''#main''))) \<and>
   selectorLike (CSSPath (CSSPath_new(FElement \<mapsto> ''table'', FId \<mapsto> ''#data''))) \<and>
   (\<exists>sel. cssSelectorBuilder_combine
             (CSSPath (CSSPath_new(FElement \<mapsto> ''div'', FId \<mapsto> ''#main''))) ''+''
             (CSSPath (CSSPath_new(FElement \<mapsto> ''table'', FId \<mapsto> ''#data''))) = Inr sel \<and>
      stringify_value sel = Inr ''div#main + table#data'')"
proof -
  let ?a = "CSSPath_new(FElement \<mapsto> ''div'', FId \<mapsto> ''#main'')"
  let ?b = "CSSPath_new(FElement \<mapsto> ''table'', FId \<mapsto> ''#data'')"
  have a: "chain [(FElement, ''div''), (FId, ''main'')] CSSPath_new = Inr ?a"
    by (simp add: element_def id_sel_def checkOrder_def slice_def order_def CSSPath_new_def)
  have b: "chain [(FElement, ''table''), (FId, ''data'')] CSSPath_new = Inr ?b"
    by (simp add: element_def id_sel_def checkOrder_def slice_def order_def CSSPath_new_def)
  have sa: "stringify_value (CSSPath ?a) = Inr ''div#main''"
    by (simp add: stringify_def add_part_def CSSPath_new_def)
  have sb: "stringify_value (CSSPath ?b) = Inr ''table#data''"
    by (simp add: stringify_def add_part_def CSSPath_new_def)
  have la: "selectorLike (CSSPath ?a)" and lb: "selectorLike (CSSPath ?b)"
    by simp_all
  from combined_stringify [OF la lb, of "''+''"] sa sb
  have "\<exists>sel. cssSelectorBuilder_combine (CSSPath ?a) ''+'' (CSSPath ?b) = Inr sel \<and>
      stringify_value sel = Inr ''div#main + table#data''"
    by auto
  with a b la lb show ?thesis by blast
qed

text \<open>The nested example of the source's header comment, with its three spaces.\<close>

lemma nested_combine_example:
  "(case (chain [(FElement, ''div''), (FId, ''main''), (FClass, ''container''), (FClass, ''draggable'')] CSSPath_new,
          chain [(FElement, ''table''), (FId, ''data'')] CSSPath_new,
          chain [(FElement, ''tr''), (FPseudoClass, ''nth-of-type(even)'')] CSSPath_new,
          chain [(FElement, ''td''), (FPseudoClass, ''nth-of-type(even)'')] CSSPath_new) of
      (Inr a, Inr b, Inr c, Inr d) \<Rightarrow>
        stringify_value
          (CSSCombinedPath (CSSPath a) ''+''
            (CSSCombinedPath (CSSPath b) ''~''
              (CSSCombinedPath (CSSPath c) '' '' (CSSPath d))))
    | _ \<Rightarrow> Inl TypeError) =
   Inr ''div#main.container.draggable + table#data ~ tr:nth-of-type(even)   td:nth-of-type(even)''"
  by (simp add: element_def id_sel_def class_sel_def pseudoClass_def checkOrder_def slice_def
      order_def CSSPath_new_def plus_assign_def stringify_def add_part_def)

text \<open>
  C6. combine returns for all arguments and stores the combinator as given, and
  stringify returns on every selector-like value: on a CSSPath in any state, and on a
  combination of selector-like values.
\<close>

theorem combine_and_stringify_return:
  "cssSelectorBuilder_combine l c r = Inr (CSSCombinedPath l c r) \<and>
   firstSelector (CSSCombinedPath l c r) = l \<and>
   combinator (CSSCombinedPath l c r) = c \<and>
   secondSelector (CSSCombinedPath l c r) = r \<and>
   (selectorLike l \<and> selectorLike r \<longrightarrow>
      selectorLike (CSSCombinedPath l c r) \<and>
      (\<exists>x. stringify_value (CSSCombinedPath l c r) = Inr x)) \<and>
   (selectorLike sel \<longrightarrow> (\<exists>x. stringify_value sel = Inr x)) \<and>
   (\<exists>x. stringify_value (CSSPath css) = Inr x)"
  using selectorLike_stringify [of "CSSCombinedPath l c r"] selectorLike_stringify [of sel]
  by (simp add: cssSelectorBuilder_combine_def)

theorem combine_and_stringify_return_witness:
  "selectorLike (CSSPath (CSSPath_new(FElement \<mapsto> ''tr''))) \<and>
   selectorLike (CSSPath (CSSPath_new(FElement \<mapsto> ''td''))) \<and>
   cssSelectorBuilder_combine (CSSPath (CSSPath_new(FElement \<mapsto> ''tr''))) ''no combinator''
       (CSSPath (CSSPath_new(FElement \<mapsto> ''td''))) =
     Inr (CSSCombinedPath (CSSPath (CSSPath_new(FElement \<mapsto> ''tr''))) ''no combinator''
       (CSSPath (CSSPath_new(FElement \<mapsto> ''td'')))) \<and>
   (\<exists>x. stringify_value (CSSCombinedPath (CSSPath (CSSPath_new(FElement \<mapsto> ''tr'')))
       ''no combinator'' (CSSPath (CSSPath_new(FElement \<mapsto> ''td'')))) = Inr x)"
proof -
  let ?l = "CSSPath (CSSPath_new(FElement \<mapsto> ''tr''))"
  let ?r = "CSSPath (CSSPath_new(FElement \<mapsto> ''td''))"
  have s: "selectorLike ?l \<and> selectorLike ?r" by simp
  from combine_and_stringify_return [where l = ?l and r = ?r and c = "''no combinator''"] s
  show ?thesis by blast
qed

section \<open>Properties of Rectangle\<close>

text \<open>
  C7. The constructor stores width and height, and getArea is the product of the
  fields as they are when it is called: after a field is reassigned, the product of
  the current values.
\<close>

theorem rectangle_area:
  "width (Rectangle w h) = w \<and> height (Rectangle w h) = h \<and>
   getArea (Rectangle w h) = w * h \<and>
   getArea ((Rectangle w h)\<lparr>width := w'\<rparr>) = w' * h \<and>
   getArea ((Rectangle w h)\<lparr>height := h'\<rparr>) = w * h' \<and>
   getArea (this\<lparr>width := w', height := h'\<rparr>) = w' * h'"
  by (simp add: Rectangle_def getArea_def)

section \<open>Properties of getJSON and fromJSON\<close>

text \<open>
  C8. When the value round-trips through the serialization format (parsing its
  serialization yields its own enumerable fields), fromJSON of getJSON returns an
  object with the blueprint as prototype and exactly the fields of the value as own
  properties; reading a property gives the parsed field when there is one, and the
  blueprint's member otherwise.
\<close>

theorem fromJSON_getJSON:
  assumes "JSON_parse (JSON_stringify v) = Inr v"
  shows "\<exists>obj. fromJSON JSON_parse proto (getJSON JSON_stringify v) = Inr obj \<and>
           prototype obj = proto \<and> own obj = v \<and>
           (\<forall>k. get_property obj k = (case v k of Some x \<Rightarrow> Some x | None \<Rightarrow> proto k))"
  using assms
  by (auto simp: fromJSON_def getJSON_def Object_assign_def Object_create_def get_property_def
      split: option.splits)

theorem fromJSON_getJSON_witness:
  "\<exists>obj. fromJSON
            (\<lambda>s. if s = ''[1,2,3]'' then Inr [''0'' \<mapsto> 1, ''1'' \<mapsto> 2, ''2'' \<mapsto> (3::int)]
                 else Inl SyntaxError)
            [''0'' \<mapsto> 7, ''sum'' \<mapsto> 0]
            (getJSON (\<lambda>v. ''[1,2,3]'') [''0'' \<mapsto> 1, ''1'' \<mapsto> 2, ''2'' \<mapsto> (3::int)]) = Inr obj \<and>
      own obj = [''0'' \<mapsto> 1, ''1'' \<mapsto> 2, ''2'' \<mapsto> 3] \<and>
      get_property obj ''0'' = Some 1 \<and> get_property obj ''2'' = Some 3 \<and>
      get_property obj ''sum'' = Some 0"
proof -
  let ?v = "[''0'' \<mapsto> 1, ''1'' \<mapsto> 2, ''2'' \<mapsto> (3::int)]"
  let ?parse = "\<lambda>s. if s = ''[1,2,3]'' then Inr ?v else Inl SyntaxError"
  let ?str = "\<lambda>v::string \<rightharpoonup> int. ''[1,2,3]''"
  let ?proto = "[''0'' \<mapsto> 7, ''sum'' \<mapsto> (0::int)]"
  have h: "?parse (?str ?v) = Inr ?v" by simp
  from fromJSON_getJSON [of ?parse ?str ?v ?proto, OF h]
  obtain obj where o: "fromJSON ?parse ?proto (getJSON ?str ?v) = Inr obj"
    and w: "own obj = ?v"
    and g: "\<forall>k. get_property obj k = (case ?v k of Some x \<Rightarrow> Some x | None \<Rightarrow> ?proto k)"
    by blast
  from g have "get_property obj ''0'' = Some 1 \<and> get_property obj ''2'' = Some 3 \<and>
      get_property obj ''sum'' = Some 0"
    by simp
  with o w show ?thesis by blast
qed

end
